theory Spec2Isabelle
  imports Main "HOL-Library.Multiset"
begin

section \<open>Text primitives used by the field extractor\<close>

text \<open>
  JavaScript strings are sequences of UTF-16 code units; they are modelled as
  \<^typ>\<open>string\<close>, a \<^typ>\<open>char\<close> being a code unit below U+0100 (ASCII and Latin-1:
  \<open>CHR 0xC9\<close> is the letter E with acute accent, \<open>CHR 0xA0\<close> the no-break space). On these
  strings the functions below are the built-in ones: \<^verbatim>\<open>\s\<close> and \<^verbatim>\<open>trim()\<close> take the
  no-break space for white space, and \<^verbatim>\<open>toLowerCase()\<close> folds the accented capitals
  U+00C0 to U+00DE (the multiplication sign U+00D7 apart) as well as A to Z. The classes
  \<^verbatim>\<open>\d\<close> and \<^verbatim>\<open>[a-zA-Z]\<close> are ASCII. A value that may be \<^verbatim>\<open>null\<close> is an
  \<^typ>\<open>'a option\<close>.
\<close>

definition is_digit :: "char \<Rightarrow> bool" where
  "is_digit c = (c \<in> set ''0123456789'')"

definition is_lower_letter :: "char \<Rightarrow> bool" where
  "is_lower_letter c = (c \<in> set ''abcdefghijklmnopqrstuvwxyz'')"

definition is_upper_letter :: "char \<Rightarrow> bool" where
  "is_upper_letter c = (c \<in> set ''ABCDEFGHIJKLMNOPQRSTUVWXYZ'')"

definition is_letter :: "char \<Rightarrow> bool" where
  "is_letter c = (is_lower_letter c \<or> is_upper_letter c)"

definition is_space :: "char \<Rightarrow> bool" where
  \<comment> \<open>\<^verbatim>\<open>\s\<close>: space, tab, line feed, vertical tab, form feed, carriage return, no-break space\<close>
  "is_space c =
     (c \<in> {CHR '' '', CHR 0x09, CHR 0x0A, CHR 0x0B, CHR 0x0C, CHR 0x0D, CHR 0xA0})"

definition is_sep :: "char \<Rightarrow> bool" where
  \<comment> \<open>\<^verbatim>\<open>[-.\s]\<close>\<close>
  "is_sep c = (c = CHR ''-'' \<or> c = CHR ''.'' \<or> is_space c)"

definition is_local_char :: "char \<Rightarrow> bool" where
  \<comment> \<open>\<^verbatim>\<open>[a-zA-Z0-9._%+-]\<close>\<close>
  "is_local_char c = (is_letter c \<or> is_digit c \<or> c \<in> set ''._%+-'')"

definition is_domain_char :: "char \<Rightarrow> bool" where
  \<comment> \<open>\<^verbatim>\<open>[a-zA-Z0-9.-]\<close>\<close>
  "is_domain_char c = (is_letter c \<or> is_digit c \<or> c \<in> set ''.-'')"

definition upper_letters :: string where
  "upper_letters =
     ''ABCDEFGHIJKLMNOPQRSTUVWXYZ'' @
       [CHR 0xC0, CHR 0xC1, CHR 0xC2, CHR 0xC3, CHR 0xC4, CHR 0xC5, CHR 0xC6, CHR 0xC7,
        CHR 0xC8, CHR 0xC9, CHR 0xCA, CHR 0xCB, CHR 0xCC, CHR 0xCD, CHR 0xCE, CHR 0xCF,
        CHR 0xD0, CHR 0xD1, CHR 0xD2, CHR 0xD3, CHR 0xD4, CHR 0xD5, CHR 0xD6, CHR 0xD8,
        CHR 0xD9, CHR 0xDA, CHR 0xDB, CHR 0xDC, CHR 0xDD, CHR 0xDE]"

definition lower_letters :: string where
  "lower_letters =
     ''abcdefghijklmnopqrstuvwxyz'' @
       [CHR 0xE0, CHR 0xE1, CHR 0xE2, CHR 0xE3, CHR 0xE4, CHR 0xE5, CHR 0xE6, CHR 0xE7,
        CHR 0xE8, CHR 0xE9, CHR 0xEA, CHR 0xEB, CHR 0xEC, CHR 0xED, CHR 0xEE, CHR 0xEF,
        CHR 0xF0, CHR 0xF1, CHR 0xF2, CHR 0xF3, CHR 0xF4, CHR 0xF5, CHR 0xF6, CHR 0xF8,
        CHR 0xF9, CHR 0xFA, CHR 0xFB, CHR 0xFC, CHR 0xFD, CHR 0xFE]"

definition lower_char :: "char \<Rightarrow> char" where
  "lower_char c = (case map_of (zip upper_letters lower_letters) c of Some l \<Rightarrow> l | None \<Rightarrow> c)"

definition toLowerCase :: "string \<Rightarrow> string" where
  "toLowerCase s = map lower_char s"

definition trim :: "string \<Rightarrow> string" where
  "trim s = rev (dropWhile is_space (rev (dropWhile is_space s)))"

fun str_includes :: "string \<Rightarrow> string \<Rightarrow> bool" where
  "str_includes [] sub = (sub = [])"
| "str_includes (c # s) sub = (take (length sub) (c # s) = sub \<or> str_includes s sub)"

subsection \<open>Regular expressions: sequences of quantified character classes\<close>

text \<open>
  Every pattern of the extractor is a concatenation of character classes, each under a
  greedy quantifier \<^verbatim>\<open>{lo,hi}\<close> (\<^verbatim>\<open>?\<close> is \<^verbatim>\<open>{0,1}\<close>, \<^verbatim>\<open>+\<close> is
  \<^verbatim>\<open>{1,}\<close>, \<^verbatim>\<open>*\<close> is \<^verbatim>\<open>{0,}\<close>). A greedy quantifier first takes as many
  characters as it can and gives them back one at a time when the rest of the pattern fails.
\<close>

datatype item = Item "char \<Rightarrow> bool" nat "nat option"

definition one :: "char \<Rightarrow> item" where
  "one c = Item (\<lambda>x. x = c) 1 (Some 1)"

definition opt :: "(char \<Rightarrow> bool) \<Rightarrow> item" where
  "opt cls = Item cls 0 (Some 1)"

definition rep :: "(char \<Rightarrow> bool) \<Rightarrow> nat \<Rightarrow> nat \<Rightarrow> item" where
  "rep cls lo hi = Item cls lo (Some hi)"

definition at_least :: "(char \<Rightarrow> bool) \<Rightarrow> nat \<Rightarrow> item" where
  "at_least cls lo = Item cls lo None"

fun first_some :: "'a option list \<Rightarrow> 'a option" where
  "first_some [] = None"
| "first_some (None # xs) = first_some xs"
| "first_some (Some x # xs) = Some x"

definition greedy_count :: "(char \<Rightarrow> bool) \<Rightarrow> nat option \<Rightarrow> string \<Rightarrow> nat" where
  "greedy_count cls hi s =
     (let n = length (takeWhile cls s) in case hi of None \<Rightarrow> n | Some h \<Rightarrow> min h n)"

fun match_here :: "item list \<Rightarrow> string \<Rightarrow> string option" where
  \<comment> \<open>the rest of the text after the match the backtracking search finds first\<close>
  "match_here [] s = Some s"
| "match_here (Item cls lo hi # rest) s =
     first_some (map (\<lambda>k. match_here rest (drop k s))
                     (rev [lo ..< Suc (greedy_count cls hi s)]))"

lemma first_some_mem: "first_some xs = Some y \<Longrightarrow> Some y \<in> set xs"
  by (induction xs rule: first_some.induct) auto

lemma match_here_length: "match_here p s = Some r \<Longrightarrow> length r \<le> length s"
proof (induction p arbitrary: s r)
  case Nil
  then show ?case by simp
next
  case (Cons it p)
  obtain cls lo hi where it: "it = Item cls lo hi" by (cases it)
  from Cons.prems it obtain k where "match_here p (drop k s) = Some r"
    by (auto dest!: first_some_mem)
  then have "length r \<le> length (drop k s)" by (rule Cons.IH)
  then show ?case by simp
qed

function match_all :: "item list \<Rightarrow> string \<Rightarrow> string list" where
  \<comment> \<open>\<^verbatim>\<open>text.match(/.../g)\<close>: all matches, left to right, without overlap\<close>
  "match_all p s =
     (case match_here p s of
        Some r \<Rightarrow>
          (if length r < length s
           then take (length s - length r) s # match_all p r
           else [] # (case s of [] \<Rightarrow> [] | _ # t \<Rightarrow> match_all p t))
      | None \<Rightarrow> (case s of [] \<Rightarrow> [] | _ # t \<Rightarrow> match_all p t))"
  by pat_completeness auto
termination
  by (relation "measure (\<lambda>(p, s). length s)") auto

declare match_all.simps [simp del]

subsection \<open>\<^verbatim>\<open>extractPhone\<close>\<close>

definition PHONE_PATTERNS :: "item list list" where
  "PHONE_PATTERNS =
     [ [opt (\<lambda>c. c = CHR ''+''), rep is_digit 1 4, opt is_sep, opt (\<lambda>c. c = CHR ''(''),
        rep is_digit 1 4, opt (\<lambda>c. c = CHR '')''), opt is_sep, rep is_digit 1 4, opt is_sep,
        rep is_digit 1 9],
       [one CHR ''('', rep is_digit 3 3, one CHR '')'', at_least is_space 0, rep is_digit 3 3,
        opt is_sep, rep is_digit 4 4],
       [rep is_digit 3 3, rep is_sep 1 1, rep is_digit 3 3, rep is_sep 1 1, rep is_digit 4 4] ]"

definition digits_of :: "string \<Rightarrow> string" where
  \<comment> \<open>\<^verbatim>\<open>phone.replace(/\D/g, '')\<close>\<close>
  "digits_of s = filter is_digit s"

fun try_patterns :: "item list list \<Rightarrow> string \<Rightarrow> string option" where
  "try_patterns [] text = None"
| "try_patterns (pattern # ps) text =
     (case match_all pattern text of
        [] \<Rightarrow> try_patterns ps text
      | m # _ \<Rightarrow>
          (let phone = trim m in
           if length (digits_of phone) \<ge> 7 then Some phone else try_patterns ps text))"

definition extractPhone :: "string option \<Rightarrow> string option" where
  "extractPhone text =
     (case text of
        None \<Rightarrow> None
      | Some t \<Rightarrow> if t = [] then None else try_patterns PHONE_PATTERNS t)"

subsection \<open>\<^verbatim>\<open>extractEmails\<close>\<close>

definition EMAIL_PATTERN :: "item list" where
  "EMAIL_PATTERN =
     [at_least is_local_char 1, one CHR ''@'', at_least is_domain_char 1, one CHR ''.'',
      at_least is_letter 2]"

definition NOISE_DOMAINS :: "string list" where
  "NOISE_DOMAINS = [''example.com'', ''google.com'', ''gstatic.com'', ''googleapis.com'']"

definition is_noise :: "string \<Rightarrow> bool" where
  \<comment> \<open>the negation of the \<^verbatim>\<open>filter\<close> callback: some blocklisted domain occurs in the lower-cased match\<close>
  "is_noise email = (let lower = toLowerCase email in list_ex (str_includes lower) NOISE_DOMAINS)"

text \<open>A JavaScript \<^verbatim>\<open>Set\<close> keeps its elements in insertion order: a list without duplicates.\<close>

definition set_add :: "'a list \<Rightarrow> 'a \<Rightarrow> 'a list" where
  "set_add s x = (if x \<in> set s then s else s @ [x])"

definition new_Set :: "'a list \<Rightarrow> 'a list" where
  "new_Set xs = foldl set_add [] xs"

definition extractEmails :: "string option \<Rightarrow> string list" where
  "extractEmails text =
     (case text of
        None \<Rightarrow> []
      | Some t \<Rightarrow>
          if t = [] then []
          else (let matches = match_all EMAIL_PATTERN t in
                if matches = [] then []
                else new_Set (filter (\<lambda>email. \<not> is_noise email) matches)))"

text \<open>
  Notions used to state the properties: the matches of the email pattern in a text, the part
  of an address after its \<^verbatim>\<open>@\<close>, and whether that domain is a blocklisted domain or a
  subdomain of one.
\<close>

definition email_matches :: "string option \<Rightarrow> string list" where
  "email_matches text = (case text of None \<Rightarrow> [] | Some t \<Rightarrow> match_all EMAIL_PATTERN t)"

definition email_domain :: "string \<Rightarrow> string" where
  "email_domain e = drop 1 (dropWhile (\<lambda>c. c \<noteq> CHR ''@'') e)"

definition domain_blocklisted :: "string \<Rightarrow> bool" where
  "domain_blocklisted e =
     (let dom = toLowerCase (email_domain e)
      in list_ex (\<lambda>d. dom = d \<or> (length d < length dom \<and>
                          drop (length dom - Suc (length d)) dom = CHR ''.'' # d)) NOISE_DOMAINS)"

section \<open>The listing record\<close>

text \<open>
  The details object that \<^verbatim>\<open>extractPlaceDetails\<close> builds and \<^verbatim>\<open>getPlaceDetails\<close>
  returns. A thrown JavaScript exception is a value of type \<open>error\<close>.
\<close>

record details =
  name :: "string option"
  address :: "string option"
  phone :: "string option"
  emails :: "string list"
  hasWebsite :: bool
  placeId :: "string option"
  isActive :: bool

datatype error = Error string

definition listing :: "string \<Rightarrow> string option \<Rightarrow> details" where
  \<comment> \<open>an active listing without website of which only the name and the place id are known\<close>
  "listing n p = \<lparr> name = Some n, address = None, phone = None, emails = [],
                    hasWebsite = False, placeId = p, isActive = True \<rparr>"

definition truthy :: "string option \<Rightarrow> bool" where
  "truthy v = (case v of None \<Rightarrow> False | Some s \<Rightarrow> s \<noteq> [])"

section \<open>\<^verbatim>\<open>extractPlaceDetails\<close>\<close>

subsection \<open>The page as the extractor sees it\<close>

text \<open>
  A call into the browser either throws (\<open>Inl\<close>) or returns (\<open>Inr\<close>). An element handle is
  what its \<^verbatim>\<open>textContent()\<close> does; a query \<^verbatim>\<open>page.$(selector)\<close> returns a handle or
  \<^verbatim>\<open>null\<close>. The record holds the outcome of every call \<^verbatim>\<open>extractPlaceDetails\<close> makes.
\<close>

type_synonym element = "error + string option"

type_synonym query = "error + element option"

record page =
  page_url :: "error + string"
  query_h1 :: query
  body_textContent :: "error + string"
  query_placePhone :: query
  query_phoneAlt :: query
  main_textContent :: "error + string"
  query_placeAddress :: query
  query_addressAlt :: query
  query_placeWebsite :: query
  query_websiteAlt :: query

definition query_or :: "query \<Rightarrow> query \<Rightarrow> query" where
  \<comment> \<open>\<^verbatim>\<open>await page.$(a) || await page.$(b)\<close>\<close>
  "query_or a b = (case a of Inl e \<Rightarrow> Inl e | Inr (Some el) \<Rightarrow> Inr (Some el) | Inr None \<Rightarrow> b)"

definition trim_or_null :: "string option \<Rightarrow> string option" where
  \<comment> \<open>\<^verbatim>\<open>text?.trim() || null\<close>\<close>
  "trim_or_null t = (case t of None \<Rightarrow> None | Some s \<Rightarrow> if trim s = [] then None else Some (trim s))"

definition PLACE_PATTERN :: "item list" where
  \<comment> \<open>\<^verbatim>\<open>/place\/([^/]+)/\<close>\<close>
  "PLACE_PATTERN = map one ''place/'' @ [at_least (\<lambda>c. c \<noteq> CHR ''/'') 1]"

definition match_first :: "item list \<Rightarrow> string \<Rightarrow> string option" where
  "match_first p s = (case match_all p s of [] \<Rightarrow> None | m # _ \<Rightarrow> Some m)"

definition closedIndicators :: "string list" where
  "closedIndicators =
     [''permanently closed'', ''cerrado permanentemente'', ''temporarily closed'',
      ''cerrado temporalmente'', ''business has closed'', ''no longer in business'',
      ''this place is closed'']"

definition initial_details :: details where
  "initial_details = \<lparr> name = None, address = None, phone = None, emails = [],
                        hasWebsite = False, placeId = None, isActive = True \<rparr>"

text \<open>
  The local state of the \<^verbatim>\<open>try\<close> block: the details object and the variable
  \<^verbatim>\<open>pageText\<close> (read only by statements after the one that sets it). Each statement of
  the block either throws or returns the new state; the block stops at the first statement
  that throws, the \<^verbatim>\<open>catch\<close> logs the error, and the function returns the details as
  they are at that moment. The wait for the heading has a \<^verbatim>\<open>catch\<close> of its own and
  changes nothing; it is not a statement of the model. \<^verbatim>\<open>decodeURIComponent\<close> is the
  built-in function, which throws on a malformed escape sequence; the extractor takes it as
  an argument.
\<close>

record locals =
  det :: details
  pageText :: string

type_synonym step = "locals \<Rightarrow> error + locals"

definition set_placeId :: "(string \<Rightarrow> error + string) \<Rightarrow> page \<Rightarrow> step" where
  "set_placeId decodeURIComponent pg l =
     (case page_url pg of
        Inl e \<Rightarrow> Inl e
      | Inr url \<Rightarrow>
          (case match_first PLACE_PATTERN url of
             None \<Rightarrow> Inr l
           | Some m \<Rightarrow>
               (case decodeURIComponent (drop (length ''place/'') m) of
                  Inl e \<Rightarrow> Inl e
                | Inr s \<Rightarrow>
                    Inr (l\<lparr>det := (det l)\<lparr>placeId := Some (takeWhile (\<lambda>c. c \<noteq> CHR ''/'') s)\<rparr>\<rparr>))))"

definition set_name :: "page \<Rightarrow> step" where
  "set_name pg l =
     (case query_h1 pg of
        Inl e \<Rightarrow> Inl e
      | Inr None \<Rightarrow> Inr l
      | Inr (Some nameEl) \<Rightarrow>
          (case nameEl of
             Inl e \<Rightarrow> Inl e
           | Inr t \<Rightarrow> Inr (l\<lparr>det := (det l)\<lparr>name := trim_or_null t\<rparr>\<rparr>)))"

definition read_pageText :: "page \<Rightarrow> step" where
  "read_pageText pg l =
     (case body_textContent pg of Inl e \<Rightarrow> Inl e | Inr t \<Rightarrow> Inr (l\<lparr>pageText := t\<rparr>))"

definition set_isActive :: step where
  "set_isActive l =
     (let lowerPageText = toLowerCase (pageText l)
      in if list_ex (str_includes lowerPageText) closedIndicators
         then Inr (l\<lparr>det := (det l)\<lparr>isActive := False\<rparr>\<rparr>)
         else Inr l)"

definition set_phone :: "page \<Rightarrow> step" where
  "set_phone pg l =
     (case query_or (query_placePhone pg) (query_phoneAlt pg) of
        Inl e \<Rightarrow> Inl e
      | Inr None \<Rightarrow> Inr l
      | Inr (Some phoneEl) \<Rightarrow>
          (case phoneEl of
             Inl e \<Rightarrow> Inl e
           | Inr phoneText \<Rightarrow> Inr (l\<lparr>det := (det l)\<lparr>phone := extractPhone phoneText\<rparr>\<rparr>)))"

definition set_phone_from_panel :: "page \<Rightarrow> step" where
  "set_phone_from_panel pg l =
     (if \<not> truthy (phone (det l))
      then (case main_textContent pg of
              Inl e \<Rightarrow> Inl e
            | Inr panelText \<Rightarrow> Inr (l\<lparr>det := (det l)\<lparr>phone := extractPhone (Some panelText)\<rparr>\<rparr>))
      else Inr l)"

definition set_address :: "page \<Rightarrow> step" where
  "set_address pg l =
     (case query_or (query_placeAddress pg) (query_addressAlt pg) of
        Inl e \<Rightarrow> Inl e
      | Inr None \<Rightarrow> Inr l
      | Inr (Some addressEl) \<Rightarrow>
          (case addressEl of
             Inl e \<Rightarrow> Inl e
           | Inr addressText \<Rightarrow> Inr (l\<lparr>det := (det l)\<lparr>address := trim_or_null addressText\<rparr>\<rparr>)))"

definition set_hasWebsite :: "page \<Rightarrow> step" where
  "set_hasWebsite pg l =
     (case query_or (query_placeWebsite pg) (query_websiteAlt pg) of
        Inl e \<Rightarrow> Inl e
      | Inr websiteEl \<Rightarrow> Inr (l\<lparr>det := (det l)\<lparr>hasWebsite := (websiteEl \<noteq> None)\<rparr>\<rparr>))"

definition set_emails :: step where
  "set_emails l = Inr (l\<lparr>det := (det l)\<lparr>emails := extractEmails (Some (pageText l))\<rparr>\<rparr>)"

definition try_block :: "(string \<Rightarrow> error + string) \<Rightarrow> page \<Rightarrow> step list" where
  "try_block decodeURIComponent pg =
     [set_placeId decodeURIComponent pg, set_name pg, read_pageText pg, set_isActive,
      set_phone pg, set_phone_from_panel pg, set_address pg, set_hasWebsite pg, set_emails]"

fun run_steps :: "step list \<Rightarrow> locals \<Rightarrow> locals \<times> error option" where
  "run_steps [] l = (l, None)"
| "run_steps (s # ss) l = (case s l of Inl e \<Rightarrow> (l, Some e) | Inr l' \<Rightarrow> run_steps ss l')"

definition start :: locals where
  "start = \<lparr> det = initial_details, pageText = [] \<rparr>"

definition extractPlaceDetails :: "(string \<Rightarrow> error + string) \<Rightarrow> page \<Rightarrow> details" where
  "extractPlaceDetails decodeURIComponent pg =
     det (fst (run_steps (try_block decodeURIComponent pg) start))"

text \<open>
  To state what a partial run leaves behind: \<open>run_ok\<close> is the state after a list of
  statements that all complete, and a statement keeps a field when it never changes it.
\<close>

fun run_ok :: "step list \<Rightarrow> locals \<Rightarrow> locals option" where
  "run_ok [] l = Some l"
| "run_ok (s # ss) l = (case s l of Inl e \<Rightarrow> None | Inr l' \<Rightarrow> run_ok ss l')"

definition keeps :: "(details \<Rightarrow> 'a) \<Rightarrow> step \<Rightarrow> bool" where
  "keeps field s = (\<forall>l l'. s l = Inr l' \<longrightarrow> field (det l') = field (det l))"

section \<open>The scraper\<close>

subsection \<open>\<^verbatim>\<open>scrollResults\<close>\<close>

text \<open>
  The page is outside the program: \<open>sample i\<close> is the height that evaluating the scroll
  command returns on scroll attempt \<open>i\<close> (counted from 0), and \<open>activeSelector\<close> is the
  results container the method settled on, if any. The state of the loop is its three
  local variables; the final \<open>scrollCount\<close> is the number of scroll attempts made.
\<close>

record scroll_state =
  previousHeight :: nat
  scrollCount :: nat
  noChangeCount :: nat

function scroll_loop :: "(nat \<Rightarrow> nat) \<Rightarrow> nat \<Rightarrow> scroll_state \<Rightarrow> scroll_state" where
  "scroll_loop sample maxScrolls st =
     (if scrollCount st < maxScrolls \<and> noChangeCount st < 3
      then (let currentHeight = sample (scrollCount st)
            in scroll_loop sample maxScrolls
                 \<lparr> previousHeight = currentHeight,
                   scrollCount = scrollCount st + 1,
                   noChangeCount =
                     (if currentHeight = previousHeight st then noChangeCount st + 1 else 0) \<rparr>)
      else st)"
  by pat_completeness auto
termination
  by (relation "measure (\<lambda>(sample, maxScrolls, st). maxScrolls - scrollCount st)") auto

declare scroll_loop.simps [simp del]

definition scrollResults :: "string option \<Rightarrow> (nat \<Rightarrow> nat) \<Rightarrow> nat \<Rightarrow> scroll_state" where
  "scrollResults activeSelector sample maxScrolls =
     (let initial = \<lparr> previousHeight = 0, scrollCount = 0, noChangeCount = 0 \<rparr>
      in case activeSelector of
           None \<Rightarrow> initial
         | Some selector \<Rightarrow> scroll_loop sample maxScrolls initial)"

text \<open>
  To state convergence: a sample is unchanged when it equals the one before it (the first
  is compared with the initial \<open>previousHeight\<close>, 0); \<open>stall sample n\<close> is the number of
  unchanged samples that end the first \<open>n\<close>; the surface has converged after \<open>n\<close>
  attempts when the last three of them were unchanged.
\<close>

definition unchanged :: "(nat \<Rightarrow> nat) \<Rightarrow> nat \<Rightarrow> bool" where
  "unchanged sample i = (sample i = (if i = 0 then 0 else sample (i - 1)))"

fun stall :: "(nat \<Rightarrow> nat) \<Rightarrow> nat \<Rightarrow> nat" where
  "stall sample 0 = 0"
| "stall sample (Suc i) = (if unchanged sample i then stall sample i + 1 else 0)"

definition converged :: "(nat \<Rightarrow> nat) \<Rightarrow> nat \<Rightarrow> bool" where
  "converged sample n =
     (3 \<le> n \<and> unchanged sample (n - 1) \<and> unchanged sample (n - 2) \<and> unchanged sample (n - 3))"

definition scroll_attempts :: "string option \<Rightarrow> (nat \<Rightarrow> nat) \<Rightarrow> nat \<Rightarrow> nat" where
  "scroll_attempts activeSelector sample maxScrolls =
     scrollCount (scrollResults activeSelector sample maxScrolls)"

subsection \<open>\<^verbatim>\<open>searchEmailForBusiness\<close>\<close>

text \<open>
  The secondary lookup opens a page of its own before its \<^verbatim>\<open>try\<close>; whatever throws
  inside the \<^verbatim>\<open>try\<close> (navigation, reading the content) is caught and gives \<^verbatim>\<open>null\<close>;
  the \<^verbatim>\<open>finally\<close> closes the page. \<open>lookup_content\<close> is the text the search page
  yields, or the exception thrown on the way to it.
\<close>

record lookup =
  lookup_newPage :: "error option"
  lookup_content :: "error + string"
  lookup_close :: "error option"

definition blacklist :: "string list" where
  "blacklist =
     [''example.com'', ''google.com'', ''gstatic.com'', ''googleapis.com'',
      ''schema.org'', ''w3.org'', ''facebook.com'', ''twitter.com'',
      ''duckduckgo.com'', ''bing.com'', ''yahoo.com'', ''microsoft.com'',
      ''apple.com'', ''amazon.com'', ''instagram.com'', ''linkedin.com'',
      ''youtube.com'', ''whatsapp.com'', ''tripadvisor.com'']"

definition pick_email :: "string \<Rightarrow> string option" where
  "pick_email pageContent =
     (let matches = match_all EMAIL_PATTERN pageContent in
      if matches = [] then None
      else (let validEmails =
                  filter (\<lambda>email. \<not> list_ex (str_includes (toLowerCase email)) blacklist) matches
            in case find (\<lambda>e. str_includes (toLowerCase e) ''gmail.com'') validEmails of
                 Some gmail \<Rightarrow> Some gmail
               | None \<Rightarrow> (case validEmails of [] \<Rightarrow> None | v # _ \<Rightarrow> Some v)))"

definition searchEmailForBusiness :: "lookup \<Rightarrow> error + string option" where
  "searchEmailForBusiness lk =
     (case lookup_newPage lk of
        Some e \<Rightarrow> Inl e
      | None \<Rightarrow>
          (let found = (case lookup_content lk of
                          Inl e \<Rightarrow> None
                        | Inr pageContent \<Rightarrow> pick_email pageContent)
           in case lookup_close lk of Some e \<Rightarrow> Inl e | None \<Rightarrow> Inr found))"

subsection \<open>\<^verbatim>\<open>getPlaceDetails\<close>\<close>

text \<open>
  What one call of \<^verbatim>\<open>getPlaceDetails\<close> meets: whether opening the page, navigating to
  the listing and closing the page throw, the page the extractor sees, and what the
  secondary lookup meets if it is called. The scraper's state is the set
  \<^verbatim>\<open>checkedNames\<close>; \<open>lookedUp\<close> is not a field of the class: it records, in order, the
  business names \<^verbatim>\<open>searchEmailForBusiness\<close> has been called with.
\<close>

record fetch =
  newPage :: "error option"
  goto :: "error option"
  shown :: page
  email_lookup :: lookup
  close :: "error option"

record scraper =
  checkedNames :: "string set"
  lookedUp :: "string list"

definition qualifies :: "details \<Rightarrow> bool" where
  \<comment> \<open>\<^verbatim>\<open>!details.hasWebsite && details.name && details.isActive\<close>\<close>
  "qualifies d = (\<not> hasWebsite d \<and> truthy (name d) \<and> isActive d)"

definition gate :: "fetch \<Rightarrow> details \<Rightarrow> scraper \<Rightarrow> (error + details option) \<times> scraper" where
  "gate f d st =
     (if qualifies d
      then (if emails d = []
            then (let st' = st\<lparr>lookedUp := lookedUp st @ [case name d of Some n \<Rightarrow> n | None \<Rightarrow> []]\<rparr>
                  in case searchEmailForBusiness (email_lookup f) of
                       Inl e \<Rightarrow> (Inl e, st')
                     | Inr None \<Rightarrow> (Inr (Some d), st')
                     | Inr (Some foundEmail) \<Rightarrow>
                         (if foundEmail = [] then (Inr (Some d), st')
                          else (Inr (Some (d\<lparr>emails := [foundEmail]\<rparr>)), st')))
            else (Inr (Some d), st))
      else (Inr None, st))"

definition try_getPlaceDetails ::
  "(string \<Rightarrow> error + string) \<Rightarrow> fetch \<Rightarrow> scraper \<Rightarrow> (error + details option) \<times> scraper" where
  "try_getPlaceDetails decodeURIComponent f st =
     (case goto f of
        Some e \<Rightarrow> (Inl e, st)
      | None \<Rightarrow>
          (let d = extractPlaceDetails decodeURIComponent (shown f) in
           if truthy (name d)
           then (let nameLower = toLowerCase (case name d of Some n \<Rightarrow> n | None \<Rightarrow> []) in
                 if nameLower \<in> checkedNames st then (Inr None, st)
                 else gate f d (st\<lparr>checkedNames := insert nameLower (checkedNames st)\<rparr>))
           else gate f d st))"

definition getPlaceDetails ::
  "(string \<Rightarrow> error + string) \<Rightarrow> fetch \<Rightarrow> scraper \<Rightarrow> (error + details option) \<times> scraper" where
  "getPlaceDetails decodeURIComponent f st =
     (case newPage f of
        Some e \<Rightarrow> (Inl e, st)
      | None \<Rightarrow>
          (let (r, st') = try_getPlaceDetails decodeURIComponent f st;
               returned = (case r of Inl e \<Rightarrow> None | Inr v \<Rightarrow> v)
           in case close f of
                Some e \<Rightarrow> (Inl e, st')
              | None \<Rightarrow> (Inr returned, st')))"

text \<open>
  Within one sweep the calls of \<^verbatim>\<open>getPlaceDetails\<close> share the scraper. A call touches
  \<^verbatim>\<open>checkedNames\<close> only between two awaits (the test and the insertion are not
  interleaved with another call), so the calls act on the set one after the other:
  \<open>sweep\<close> runs them in that order and lists, for every call, what it returned and the
  state it left. A fetch resolves to \<open>k\<close> when its page is opened and reached and the
  extracted name, lower-cased, is \<open>k\<close>; \<open>admitted\<close> counts the calls that resolve to \<open>k\<close>
  and pass the dedup check (\<open>k\<close> not yet in the set); a call is emitted as \<open>k\<close> when it
  returns a record whose lower-cased name is \<open>k\<close>.
\<close>

fun sweep ::
  "(string \<Rightarrow> error + string) \<Rightarrow> fetch list \<Rightarrow> scraper \<Rightarrow> ((error + details option) \<times> scraper) list" where
  "sweep dec [] st = []"
| "sweep dec (f # fs) st =
     (let out = getPlaceDetails dec f st in out # sweep dec fs (snd out))"

definition resolves :: "(string \<Rightarrow> error + string) \<Rightarrow> fetch \<Rightarrow> string \<Rightarrow> bool" where
  "resolves dec f k =
     (newPage f = None \<and> goto f = None \<and>
      (case name (extractPlaceDetails dec (shown f)) of
         None \<Rightarrow> False
       | Some n \<Rightarrow> n \<noteq> [] \<and> toLowerCase n = k))"

fun admitted :: "(string \<Rightarrow> error + string) \<Rightarrow> fetch list \<Rightarrow> scraper \<Rightarrow> string \<Rightarrow> nat" where
  "admitted dec [] st k = 0"
| "admitted dec (f # fs) st k =
     (if resolves dec f k \<and> k \<notin> checkedNames st then 1 else 0)
     + admitted dec fs (snd (getPlaceDetails dec f st)) k"

definition emitted_as :: "string \<Rightarrow> (error + details option) \<times> scraper \<Rightarrow> bool" where
  "emitted_as k out =
     (case fst out of
        Inr (Some d) \<Rightarrow> map_option toLowerCase (name d) = Some k
      | _ \<Rightarrow> False)"

subsection \<open>\<^verbatim>\<open>scrapeWithSubdivision\<close>\<close>

text \<open>
  The outcome of one sub-query is either an exception (thrown by the search or by
  \<^verbatim>\<open>processPlaces\<close>, caught by the loop body) or the list \<^verbatim>\<open>processPlaces\<close>
  returned (empty when the search found no place). \<^verbatim>\<open>allResults\<close> is a JavaScript
  \<^verbatim>\<open>Map\<close>, which keeps its entries in insertion order: an association list.
  \<open>launched\<close> and \<open>closed\<close> say whether launching and closing the browser throw; the
  \<^verbatim>\<open>finally\<close> block closes the browser in every case.
\<close>

definition dedup_key :: "details \<Rightarrow> string option" where
  \<comment> \<open>\<^verbatim>\<open>result.placeId || result.name?.toLowerCase()\<close>\<close>
  "dedup_key result =
     (if truthy (placeId result) then placeId result else map_option toLowerCase (name result))"

definition has_key :: "(string \<times> details) list \<Rightarrow> string \<Rightarrow> bool" where
  "has_key allResults key = (key \<in> fst ` set allResults)"

definition add_result :: "(string \<times> details) list \<Rightarrow> details \<Rightarrow> (string \<times> details) list" where
  "add_result allResults result =
     (case dedup_key result of
        None \<Rightarrow> allResults
      | Some key \<Rightarrow>
          if key \<noteq> [] \<and> \<not> has_key allResults key then allResults @ [(key, result)]
          else allResults)"

definition run_task :: "(string \<times> details) list \<Rightarrow> error + details list \<Rightarrow> (string \<times> details) list" where
  "run_task allResults outcome =
     (case outcome of
        Inl e \<Rightarrow> allResults
      | Inr results \<Rightarrow> foldl add_result allResults results)"

definition scrapeWithSubdivision ::
  "error option \<Rightarrow> error option \<Rightarrow> (error + details list) list \<Rightarrow> error + details list" where
  "scrapeWithSubdivision launched closed tasks =
     (let body = (case launched of
                    Some e \<Rightarrow> Inl e
                  | None \<Rightarrow> Inr (map snd (foldl run_task [] tasks)))
      in case closed of Some e \<Rightarrow> Inl e | None \<Rightarrow> body)"

subsection \<open>\<^verbatim>\<open>processPlaces\<close>\<close>


record pool =
  queue :: "string list"
  attempted :: "string list"
  results :: "details list"
  processed :: nat


























subsection \<open>A listing page, a lookup and a fetch to run the functions on\<close>

definition element :: "string \<Rightarrow> query" where
  "element content = Inr (Some (Inr (Some content)))"

definition absent :: query where
  "absent = Inr None"

definition cafe_page :: "string \<Rightarrow> page" where
  "cafe_page heading =
     \<lparr> page_url = Inr ''https://www.google.com/maps/place/Cafe+A/data=x'',
       query_h1 = element heading,
       body_textContent = Inr ''Cafe A Calle Mayor 15, Madrid'',
       query_placePhone = absent, query_phoneAlt = absent,
       main_textContent = Inr ''Cafe A'',
       query_placeAddress = element ''Calle Mayor 15, Madrid'', query_addressAlt = absent,
       query_placeWebsite = absent, query_websiteAlt = absent \<rparr>"

definition gmail_lookup :: lookup where
  "gmail_lookup = \<lparr> lookup_newPage = None,
                     lookup_content = Inr ''Cafe A - write to cafea@gmail.com'',
                     lookup_close = None \<rparr>"

definition cafe_fetch :: "string \<Rightarrow> fetch" where
  "cafe_fetch heading = \<lparr> newPage = None, goto = None, shown = cafe_page heading,
                           email_lookup = gmail_lookup, close = None \<rparr>"

definition new_scraper :: scraper where
  "new_scraper = \<lparr> checkedNames = {}, lookedUp = [] \<rparr>"

definition with_website :: "page \<Rightarrow> page" where
  "with_website pg = pg\<lparr> query_placeWebsite := element ''cafea.es'' \<rparr>"

definition broken_page :: page where
  \<comment> \<open>the page has a website link, and reading the body text throws\<close>
  "broken_page = (cafe_page ''Cafe A'')
     \<lparr> body_textContent := Inl (Error ''Execution context was destroyed''),
       query_placeWebsite := element ''cafea.es'' \<rparr>"

section \<open>Verified properties\<close>

subsection \<open>Phone extraction\<close>

lemma try_patterns_digits:
  "try_patterns ps t = Some ph \<Longrightarrow> 7 \<le> length (digits_of ph)"
  by (induction ps) (auto split: list.splits if_splits simp: Let_def)

text \<open>
  C2. Whatever the input text, \<^verbatim>\<open>extractPhone\<close> returns either nothing or a string of
  which at least seven characters remain once every non-digit is removed.
\<close>

theorem extractPhone_digits:
  "extractPhone text = None \<or>
   (\<exists>ph. extractPhone text = Some ph \<and> 7 \<le> length (digits_of ph))"
  by (cases "extractPhone text")
     (auto simp: extractPhone_def split: option.splits if_splits dest: try_patterns_digits)

theorem extractPhone_digits_witness:
  "\<exists>ph. extractPhone (Some ''Call +34 912 345 678 now'') = Some ph
        \<and> 7 \<le> length (digits_of ph)"
proof -
  have "extractPhone (Some ''Call +34 912 345 678 now'') = Some ''+34 912 345 678''"
    by code_simp
  then show ?thesis
    using extractPhone_digits [of "Some ''Call +34 912 345 678 now''"] by simp
qed

text \<open>
  C3. The claim: the patterns are tried in priority order, the first match with at least
  seven digits is returned, and nothing is returned only when no match of any pattern has
  seven digits. The code looks at the first match of each pattern only. In the text below
  the first pattern matches twice: its first match, the postal code, has five digits, its
  second match, the phone number, has nine; neither of the other patterns matches. The
  result is nothing, although a match with nine digits exists.
\<close>

theorem extractPhone_first_match_only:
  "match_all (PHONE_PATTERNS ! 0) ''Calle Mayor 15, 28013 Madrid 912 345 678''
     = [''28013'', ''912 345 678'']
   \<and> match_all (PHONE_PATTERNS ! 1) ''Calle Mayor 15, 28013 Madrid 912 345 678'' = []
   \<and> match_all (PHONE_PATTERNS ! 2) ''Calle Mayor 15, 28013 Madrid 912 345 678'' = []
   \<and> length (digits_of ''912 345 678'') = 9
   \<and> extractPhone (Some ''Calle Mayor 15, 28013 Madrid 912 345 678'') = None"
  by code_simp

subsection \<open>Email extraction\<close>

lemma str_includes_prefix: "str_includes (sub @ q) sub"
proof (cases "sub @ q")
  case Nil
  then show ?thesis by simp
next
  case (Cons c s)
  have "take (length sub) (sub @ q) = sub" by simp
  then have "take (length sub) (c # s) = sub" unfolding Cons .
  then have "str_includes (c # s) sub" by simp
  then show ?thesis unfolding Cons .
qed

lemma str_includes_append: "str_includes (p @ sub @ q) sub"
  by (induction p) (simp_all add: str_includes_prefix)

lemma str_includes_iff: "str_includes s sub \<longleftrightarrow> (\<exists>p q. s = p @ sub @ q)"
proof
  show "str_includes s sub \<Longrightarrow> \<exists>p q. s = p @ sub @ q"
  proof (induction s)
    case Nil then show ?case by simp
  next
    case (Cons c s)
    show ?case
    proof (cases "take (length sub) (c # s) = sub")
      case True
      then have "c # s = [] @ sub @ drop (length sub) (c # s)"
        by (metis append_Nil append_take_drop_id)
      then show ?thesis by blast
    next
      case False
      with Cons.prems have "str_includes s sub" by simp
      then obtain p q where "s = p @ sub @ q" using Cons.IH by blast
      then have "c # s = (c # p) @ sub @ q" by simp
      then show ?thesis by blast
    qed
  qed
next
  show "\<exists>p q. s = p @ sub @ q \<Longrightarrow> str_includes s sub"
    using str_includes_append by blast
qed

lemma set_foldl_set_add: "set (foldl set_add acc xs) = set acc \<union> set xs"
  by (induction xs arbitrary: acc) (auto simp: set_add_def)

lemma distinct_foldl_set_add: "distinct acc \<Longrightarrow> distinct (foldl set_add acc xs)"
  by (induction xs arbitrary: acc) (auto simp: set_add_def)

lemma set_new_Set: "set (new_Set xs) = set xs"
  by (simp add: new_Set_def set_foldl_set_add)

lemma distinct_new_Set: "distinct (new_Set xs)"
  by (simp add: new_Set_def distinct_foldl_set_add)

lemma new_Set_snoc: "new_Set (xs @ [x]) = (if x \<in> set xs then new_Set xs else new_Set xs @ [x])"
  by (simp add: new_Set_def set_add_def set_foldl_set_add)

lemma new_Set_filter_positions:
  "new_Set (filter P ms) =
   map (\<lambda>i. ms ! i) (filter (\<lambda>i. P (ms ! i) \<and> ms ! i \<notin> set (take i ms)) [0 ..< length ms])"
proof (induction ms rule: rev_induct)
  case Nil
  then show ?case by (simp add: new_Set_def)
next
  case (snoc x ms)
  have eq: "filter (\<lambda>i. P ((ms @ [x]) ! i) \<and> (ms @ [x]) ! i \<notin> set (take i (ms @ [x]))) [0 ..< length ms]
          = filter (\<lambda>i. P (ms ! i) \<and> ms ! i \<notin> set (take i ms)) [0 ..< length ms]"
    by (rule filter_cong) (auto simp: nth_append)
  have mp: "map (\<lambda>i. (ms @ [x]) ! i) (filter Q [0 ..< length ms]) = map (\<lambda>i. ms ! i) (filter Q [0 ..< length ms])" for Q
    by (rule map_cong) (auto simp: nth_append)
  let ?Q = "\<lambda>i. P ((ms @ [x]) ! i) \<and> (ms @ [x]) ! i \<notin> set (take i (ms @ [x]))"
  have up: "[0 ..< length (ms @ [x])] = [0 ..< length ms] @ [length ms]" by simp
  have last: "?Q (length ms) \<longleftrightarrow> P x \<and> x \<notin> set ms" by simp
  have "map (\<lambda>i. (ms @ [x]) ! i) (filter ?Q [0 ..< length (ms @ [x])])
        = map (\<lambda>i. ms ! i) (filter ?Q [0 ..< length ms])
          @ (if P x \<and> x \<notin> set ms then [x] else [])"
    unfolding up filter_append map_append mp using last by simp
  also have "\<dots> = new_Set (filter P ms) @ (if P x \<and> x \<notin> set ms then [x] else [])"
    unfolding eq using snoc.IH by simp
  also have "\<dots> = new_Set (filter P (ms @ [x]))"
    by (simp add: new_Set_snoc)
  finally show ?case by simp
qed

lemma toLowerCase_append: "toLowerCase (a @ b) = toLowerCase a @ toLowerCase b"
  by (simp add: toLowerCase_def)

lemma email_domain_suffix: "\<exists>pre. e = pre @ email_domain e"
proof -
  have "e = take (length e - length (email_domain e)) e @ email_domain e"
    unfolding email_domain_def
    by (metis append_take_drop_id drop_drop length_drop takeWhile_dropWhile_id
        append_eq_conv_conj diff_diff_cancel length_append diff_le_self add.commute)
  then show ?thesis by blast
qed

lemma blocklisted_includes:
  assumes "d \<in> set NOISE_DOMAINS"
    and "toLowerCase (email_domain e) = d \<or>
         (length d < length (toLowerCase (email_domain e)) \<and>
          drop (length (toLowerCase (email_domain e)) - Suc (length d)) (toLowerCase (email_domain e))
            = CHR ''.'' # d)"
  shows "str_includes (toLowerCase e) d"
proof -
  obtain pre where e: "e = pre @ email_domain e" using email_domain_suffix by blast
  from assms(2) obtain p where p: "toLowerCase (email_domain e) = p @ d"
  proof
    assume "toLowerCase (email_domain e) = d"
    then have "toLowerCase (email_domain e) = [] @ d" by simp
    then show ?thesis using that by blast
  next
    assume a: "length d < length (toLowerCase (email_domain e)) \<and>
          drop (length (toLowerCase (email_domain e)) - Suc (length d)) (toLowerCase (email_domain e))
            = CHR ''.'' # d"
    let ?l = "toLowerCase (email_domain e)"
    have "?l = take (length ?l - Suc (length d)) ?l @ CHR ''.'' # d"
      using a by (metis append_take_drop_id)
    then have "?l = (take (length ?l - Suc (length d)) ?l @ [CHR ''.'']) @ d" by simp
    then show ?thesis using that by blast
  qed
  have "toLowerCase e = toLowerCase pre @ toLowerCase (email_domain e)"
    using e toLowerCase_append by metis
  then have "toLowerCase e = (toLowerCase pre @ p) @ d @ []" using p by simp
  then show ?thesis using str_includes_append by metis
qed

lemma not_noise_not_blocklisted: "\<not> is_noise e \<Longrightarrow> \<not> domain_blocklisted e"
  unfolding is_noise_def domain_blocklisted_def Let_def list_ex_iff
  using blocklisted_includes by blast

lemma extractEmails_eq: "extractEmails text = new_Set (filter (\<lambda>e. \<not> is_noise e) (email_matches text))"
proof (cases "text")
  case None
  then show ?thesis by (simp add: extractEmails_def email_matches_def new_Set_def)
next
  case (Some t)
  have "match_all EMAIL_PATTERN [] = []"
    by (simp add: match_all.simps EMAIL_PATTERN_def at_least_def greedy_count_def)
  then show ?thesis using Some
    by (auto simp: extractEmails_def email_matches_def new_Set_def Let_def)
qed

text \<open>
  C4 (as the code has it). \<^verbatim>\<open>extractEmails\<close> walks the matches of the email pattern
  in order and keeps a match when it is not noise and has not been seen before: the result
  has no duplicates and is in first-seen order. A match is noise when its lower-cased text
  \<^emph>\<open>contains\<close> one of the blocklisted domains anywhere; so no returned address has a
  blocklisted domain (or a subdomain of one), but addresses whose domain is not on the
  blocklist are removed too.
\<close>

theorem extractEmails_survivors:
  "extractEmails text =
     map (\<lambda>i. email_matches text ! i)
       (filter (\<lambda>i. \<not> is_noise (email_matches text ! i) \<and>
                    email_matches text ! i \<notin> set (take i (email_matches text)))
          [0 ..< length (email_matches text)])
   \<and> set (extractEmails text) = {e \<in> set (email_matches text). \<not> is_noise e}
   \<and> (\<forall>e \<in> set (extractEmails text). \<not> domain_blocklisted e)
   \<and> distinct (extractEmails text)"
proof (intro conjI)
  show "extractEmails text =
     map (\<lambda>i. email_matches text ! i)
       (filter (\<lambda>i. \<not> is_noise (email_matches text ! i) \<and>
                    email_matches text ! i \<notin> set (take i (email_matches text)))
          [0 ..< length (email_matches text)])"
    unfolding extractEmails_eq by (rule new_Set_filter_positions)
  show "set (extractEmails text) = {e \<in> set (email_matches text). \<not> is_noise e}"
    unfolding extractEmails_eq by (auto simp: set_new_Set)
  show "\<forall>e \<in> set (extractEmails text). \<not> domain_blocklisted e"
    unfolding extractEmails_eq by (auto simp: set_new_Set not_noise_not_blocklisted)
  show "distinct (extractEmails text)"
    unfolding extractEmails_eq by (rule distinct_new_Set)
qed

theorem extractEmails_survivors_witness:
  "extractEmails (Some ''mail Bob@Shop.es, x@google.com, bob@shop.es or Bob@Shop.es'')
     = [''Bob@Shop.es'', ''bob@shop.es'']
   \<and> email_matches (Some ''mail Bob@Shop.es, x@google.com, bob@shop.es or Bob@Shop.es'')
     = [''Bob@Shop.es'', ''x@google.com'', ''bob@shop.es'', ''Bob@Shop.es'']
   \<and> \<not> domain_blocklisted ''Bob@Shop.es'' \<and> \<not> domain_blocklisted ''bob@shop.es''
   \<and> domain_blocklisted ''x@google.com''"
proof -
  have a: "extractEmails (Some ''mail Bob@Shop.es, x@google.com, bob@shop.es or Bob@Shop.es'')
     = [''Bob@Shop.es'', ''bob@shop.es'']" by code_simp
  have b: "email_matches (Some ''mail Bob@Shop.es, x@google.com, bob@shop.es or Bob@Shop.es'')
     = [''Bob@Shop.es'', ''x@google.com'', ''bob@shop.es'', ''Bob@Shop.es'']" by code_simp
  have c: "domain_blocklisted ''x@google.com''" by code_simp
  have "\<forall>e \<in> set [''Bob@Shop.es'', ''bob@shop.es'']. \<not> domain_blocklisted e"
    using extractEmails_survivors
      [of "Some ''mail Bob@Shop.es, x@google.com, bob@shop.es or Bob@Shop.es''"]
    unfolding a by blast
  then show ?thesis using a b c by simp
qed

text \<open>
  C4 as stated says that exactly the matches with a blocklisted domain are removed. The
  address below is a match, its domain \<^verbatim>\<open>notgoogle.com\<close> is not on the blocklist, and
  it is removed all the same.
\<close>

theorem extractEmails_blocklist_counterexample:
  "''info@notgoogle.com'' \<in> set (email_matches (Some ''info@notgoogle.com''))
   \<and> \<not> domain_blocklisted ''info@notgoogle.com''
   \<and> ''info@notgoogle.com'' \<notin> set (extractEmails (Some ''info@notgoogle.com''))"
  by code_simp

subsection \<open>Scroll convergence\<close>

lemma stall_converged: "3 \<le> stall sample n \<longleftrightarrow> converged sample n"
proof (cases n)
  case 0
  then show ?thesis by (simp add: converged_def)
next
  case (Suc a)
  show ?thesis
  proof (cases a)
    case 0
    with Suc show ?thesis by (simp add: converged_def)
  next
    case (Suc b)
    note b = this
    show ?thesis
    proof (cases b)
      case 0
      with b \<open>n = Suc a\<close> show ?thesis by (simp add: converged_def)
    next
      case (Suc c)
      with b \<open>n = Suc a\<close> show ?thesis by (auto simp: converged_def)
    qed
  qed
qed

lemma scroll_loop_inv:
  assumes "previousHeight st = (if scrollCount st = 0 then 0 else sample (scrollCount st - 1))"
    and "noChangeCount st = stall sample (scrollCount st)"
    and "scrollCount st \<le> M"
    and "\<forall>m < scrollCount st. stall sample m < 3"
  shows "let n = scrollCount (scroll_loop sample M st) in
           n \<le> M \<and> (n = M \<or> 3 \<le> stall sample n) \<and> (\<forall>m < n. stall sample m < 3)"
  using assms
proof (induction sample M st rule: scroll_loop.induct)
  case (1 sample maxScrolls st)
  show ?case
  proof (cases "scrollCount st < maxScrolls \<and> noChangeCount st < 3")
    case False
    have "scroll_loop sample maxScrolls st = st"
      using False by (subst scroll_loop.simps) auto
    then show ?thesis using False 1(2-5) by (auto simp: Let_def)
  next
    case True
    let ?st' = "\<lparr> previousHeight = sample (scrollCount st),
                   scrollCount = scrollCount st + 1,
                   noChangeCount =
                     (if sample (scrollCount st) = previousHeight st then noChangeCount st + 1 else 0) \<rparr>"
    have eq: "scroll_loop sample maxScrolls st = scroll_loop sample maxScrolls ?st'"
      using True by (subst scroll_loop.simps) (simp add: Let_def)
    have a: "previousHeight ?st' = (if scrollCount ?st' = 0 then 0 else sample (scrollCount ?st' - 1))"
      by simp
    have b: "noChangeCount ?st' = stall sample (scrollCount ?st')"
      using 1(2,3) by (simp add: unchanged_def)
    have c: "scrollCount ?st' \<le> maxScrolls" using True by simp
    have d: "\<forall>m < scrollCount ?st'. stall sample m < 3"
      using 1(3,5) True by (auto simp: less_Suc_eq)
    show ?thesis unfolding eq
      by (rule 1(1) [OF True refl a b c d])
  qed
qed

lemma scroll_attempts_char:
  "scroll_attempts (Some sel) sample M \<le> M
   \<and> (scroll_attempts (Some sel) sample M = M \<or> converged sample (scroll_attempts (Some sel) sample M))
   \<and> (\<forall>m < scroll_attempts (Some sel) sample M. \<not> converged sample m)"
  using scroll_loop_inv [of "\<lparr> previousHeight = 0, scrollCount = 0, noChangeCount = 0 \<rparr>" sample M]
  by (simp add: scroll_attempts_def scrollResults_def Let_def stall_converged [symmetric] not_le)

lemma converged_after:
  assumes "\<forall>i \<ge> k. unchanged sample i" shows "converged sample (k + 3)"
  using assms by (simp add: converged_def)

lemma not_converged_before:
  assumes "\<forall>i < k. \<not> unchanged sample i" and "m < k + 3" shows "\<not> converged sample m"
proof
  assume c: "converged sample m"
  then have "3 \<le> m" and "unchanged sample (m - 3)" by (simp_all add: converged_def)
  moreover have "m - 3 < k" using assms(2) \<open>3 \<le> m\<close> by arith
  ultimately show False using assms(1) by blast
qed

text \<open>
  C7 (as the code has it). The loop always terminates (the function is total: every
  iteration brings \<open>scrollCount\<close> closer to \<open>maxScrolls\<close>). A sample is unchanged when it
  equals the sample before it (the first one is compared with 0); the loop has converged
  after \<open>n\<close> attempts when the last three samples were unchanged. The number of attempts is
  the first \<open>n\<close> that is \<open>maxScrolls\<close> or at which the loop has converged. So when no
  sample changes from attempt \<open>k\<close> on, the loop makes at most \<open>k + 3\<close> attempts, and when
  each of the first \<open>k\<close> samples changes, it makes no fewer (short of \<open>maxScrolls\<close>).
\<close>

theorem scrollResults_converges:
  "scroll_attempts (Some sel) sample M \<le> M
   \<and> (scroll_attempts (Some sel) sample M = M
        \<or> converged sample (scroll_attempts (Some sel) sample M))
   \<and> (\<forall>m < scroll_attempts (Some sel) sample M. \<not> converged sample m)
   \<and> ((\<forall>i \<ge> k. unchanged sample i) \<longrightarrow> scroll_attempts (Some sel) sample M \<le> k + 3)
   \<and> ((\<forall>i < k. \<not> unchanged sample i) \<longrightarrow> min M (k + 3) \<le> scroll_attempts (Some sel) sample M)"
proof -
  let ?n = "scroll_attempts (Some sel) sample M"
  note c = scroll_attempts_char [of sel sample M]
  have within: "?n \<le> k + 3" if "\<forall>i \<ge> k. unchanged sample i"
  proof (rule ccontr)
    assume "\<not> ?n \<le> k + 3"
    then have "k + 3 < ?n" by simp
    then have "\<not> converged sample (k + 3)" using c by blast
    then show False using converged_after [OF that] by simp
  qed
  have earlier: "min M (k + 3) \<le> ?n" if "\<forall>i < k. \<not> unchanged sample i"
  proof (cases "?n = M")
    case True
    then show ?thesis by simp
  next
    case False
    then have "converged sample ?n" using c by blast
    then have "\<not> ?n < k + 3" using not_converged_before [OF that] by blast
    then show ?thesis by simp
  qed
  show ?thesis using c within earlier by blast
qed

theorem scrollResults_converges_witness:
  "scroll_attempts (Some ''div[role=feed]'') (\<lambda>i. if i < 2 then 10 * (i + 1) else 20) 50000 = 5"
proof -
  let ?s = "\<lambda>i::nat. if i < 2 then 10 * (i + 1) else (20::nat)"
  have a: "\<forall>i \<ge> 2. unchanged ?s i" by (auto simp: unchanged_def)
  have b: "\<forall>i < 2. \<not> unchanged ?s i" by (auto simp: unchanged_def)
  show ?thesis
    using a b scrollResults_converges [of "''div[role=feed]''" ?s 50000 2] by simp
qed

text \<open>
  C7 as stated counts samples that show no height \<^emph>\<open>increase\<close>. The loop counts samples
  equal to the previous one, and a smaller height resets the count. On the surface below
  the height never grows after the first sample (3, 2, 1, 0, 0, 0, 0): three consecutive
  samples without increase have been seen after 4 attempts, yet the loop makes 7.
\<close>

theorem scrollResults_no_increase_counterexample:
  "map (\<lambda>i. 3 - i) [0 ..< 7] = [3, 2, 1, 0, 0, 0, 0 :: nat]
   \<and> scroll_attempts (Some ''div[role=feed]'') (\<lambda>i. 3 - i) 50000 = 7"
  by (simp add: scroll_attempts_def scrollResults_def scroll_loop.simps upt_rec)

subsection \<open>Cross-task deduplication\<close>

text \<open>
  C6. The claim: when two tasks produce records with the same place id, the final
  collection holds exactly one record for that place id, the first one. So it is in the
  second sweep below. \<^verbatim>\<open>allResults\<close> has one key space for place ids and for the
  lower-cased names of the records without place id: in the first sweep an earlier record
  without place id, named CAFE, has taken the key of the two later records with place id
  \<^verbatim>\<open>cafe\<close>, both are dropped, and the final collection holds no record with that place
  id.
\<close>

theorem scrapeWithSubdivision_key_clash:
  "scrapeWithSubdivision None None
     [Inr [listing ''CAFE'' None], Inr [listing ''Bar Sol'' (Some ''cafe'')],
      Inr [listing ''Luna'' (Some ''cafe'')]]
   = Inr [listing ''CAFE'' None]
   \<and> filter (\<lambda>r. placeId r = Some ''cafe'') [listing ''CAFE'' None] = []
   \<and> scrapeWithSubdivision None None
       [Inr [listing ''Bar Sol'' (Some ''cafe'')], Inr [listing ''Luna'' (Some ''cafe'')]]
     = Inr [listing ''Bar Sol'' (Some ''cafe'')]"
  by code_simp

subsection \<open>Partial extraction\<close>

lemma run_steps_prefix:
  "\<exists>k \<le> length ss. \<exists>l'. run_ok (take k ss) l = Some l' \<and> fst (run_steps ss l) = l'
      \<and> (k < length ss \<longrightarrow> (\<exists>e. (ss ! k) l' = Inl e))"
proof (induction ss arbitrary: l)
  case Nil
  then show ?case by simp
next
  case (Cons s ss)
  show ?case
  proof (cases "s l")
    case (Inl e)
    then have "run_ok (take 0 (s # ss)) l = Some l \<and> fst (run_steps (s # ss) l) = l
      \<and> (0 < length (s # ss) \<longrightarrow> (\<exists>e. ((s # ss) ! 0) l = Inl e))" by simp
    then show ?thesis by blast
  next
    case (Inr l1)
    from Cons.IH [of l1] obtain k l' where k: "k \<le> length ss"
      and r: "run_ok (take k ss) l1 = Some l'" "fst (run_steps ss l1) = l'"
      and f: "k < length ss \<longrightarrow> (\<exists>e. (ss ! k) l' = Inl e)" by blast
    have "Suc k \<le> length (s # ss) \<and> run_ok (take (Suc k) (s # ss)) l = Some l'
       \<and> fst (run_steps (s # ss) l) = l'
       \<and> (Suc k < length (s # ss) \<longrightarrow> (\<exists>e. ((s # ss) ! Suc k) l' = Inl e))"
      using k r f Inr by simp
    then show ?thesis by blast
  qed
qed

lemma run_ok_keeps:
  "\<forall>s \<in> set ss. keeps field s \<Longrightarrow> run_ok ss l = Some l' \<Longrightarrow> field (det l') = field (det l)"
proof (induction ss arbitrary: l)
  case Nil
  then show ?case by simp
next
  case (Cons s ss)
  from Cons.prems(2) obtain l1 where s: "s l = Inr l1" and r: "run_ok ss l1 = Some l'"
    by (auto split: sum.splits)
  have "field (det l') = field (det l1)" using Cons.IH Cons.prems(1) r by simp
  moreover have "field (det l1) = field (det l)" using Cons.prems(1) s by (simp add: keeps_def)
  ultimately show ?case by simp
qed

lemma run_ok_take_keeps:
  assumes "\<forall>s \<in> set (take n ss). keeps field s" and "k \<le> n" and "run_ok (take k ss) l = Some l'"
  shows "field (det l') = field (det l)"
proof -
  have "set (take k ss) \<subseteq> set (take n ss)" using assms(2) by (rule set_take_subset_set_take)
  then have "\<forall>s \<in> set (take k ss). keeps field s" using assms(1) by blast
  then show ?thesis using assms(3) by (rule run_ok_keeps)
qed

lemmas step_defs = set_placeId_def set_name_def read_pageText_def set_isActive_def set_phone_def
  set_phone_from_panel_def set_address_def set_hasWebsite_def set_emails_def

lemma keeps_emails:
  "\<forall>s \<in> set (take 8 (try_block dec pg)). keeps emails s"
  by (auto simp: try_block_def keeps_def step_defs Let_def split: sum.splits option.splits if_splits)

lemma keeps_hasWebsite:
  "\<forall>s \<in> set (take 7 (try_block dec pg)). keeps hasWebsite s"
  by (auto simp: try_block_def keeps_def step_defs Let_def split: sum.splits option.splits if_splits)

lemma keeps_address:
  "\<forall>s \<in> set (take 6 (try_block dec pg)). keeps address s"
  by (auto simp: try_block_def keeps_def step_defs Let_def split: sum.splits option.splits if_splits)

lemma keeps_phone:
  "\<forall>s \<in> set (take 4 (try_block dec pg)). keeps phone s"
  by (auto simp: try_block_def keeps_def step_defs Let_def split: sum.splits option.splits if_splits)

lemma keeps_isActive:
  "\<forall>s \<in> set (take 3 (try_block dec pg)). keeps isActive s"
  by (auto simp: try_block_def keeps_def step_defs Let_def split: sum.splits option.splits if_splits)

lemma keeps_name:
  "\<forall>s \<in> set (take 1 (try_block dec pg)). keeps name s"
  by (auto simp: try_block_def keeps_def step_defs Let_def split: sum.splits option.splits if_splits)

lemma length_try_block: "length (try_block dec pg) = 9"
  by (simp add: try_block_def)

lemma extract_prefix:
  "\<exists>k \<le> 9. \<exists>l.
      run_ok (take k (try_block dec pg)) start = Some l
    \<and> extractPlaceDetails dec pg = det l
    \<and> (k < 9 \<longrightarrow> (\<exists>e. (try_block dec pg ! k) l = Inl e))
    \<and> (k \<le> 8 \<longrightarrow> emails (det l) = [])
    \<and> (k \<le> 7 \<longrightarrow> hasWebsite (det l) = False)
    \<and> (k \<le> 6 \<longrightarrow> address (det l) = None)
    \<and> (k \<le> 4 \<longrightarrow> phone (det l) = None)
    \<and> (k \<le> 3 \<longrightarrow> isActive (det l) = True)
    \<and> (k \<le> 1 \<longrightarrow> name (det l) = None)
    \<and> (k = 0 \<longrightarrow> placeId (det l) = None)"
proof -
  obtain k l where k: "k \<le> 9"
    and ok: "run_ok (take k (try_block dec pg)) start = Some l"
    and res: "fst (run_steps (try_block dec pg) start) = l"
    and fail: "k < 9 \<longrightarrow> (\<exists>e. (try_block dec pg ! k) l = Inl e)"
    using run_steps_prefix [of "try_block dec pg" start] unfolding length_try_block by blast
  have r: "extractPlaceDetails dec pg = det l"
    using res by (simp add: extractPlaceDetails_def)
  have s: "det start = initial_details" by (simp add: start_def)
  have e: "k \<le> 8 \<longrightarrow> emails (det l) = []"
    using run_ok_take_keeps [OF keeps_emails _ ok] s by (simp add: initial_details_def)
  have w: "k \<le> 7 \<longrightarrow> hasWebsite (det l) = False"
    using run_ok_take_keeps [OF keeps_hasWebsite _ ok] s by (simp add: initial_details_def)
  have a: "k \<le> 6 \<longrightarrow> address (det l) = None"
    using run_ok_take_keeps [OF keeps_address _ ok] s by (simp add: initial_details_def)
  have p: "k \<le> 4 \<longrightarrow> phone (det l) = None"
    using run_ok_take_keeps [OF keeps_phone _ ok] s by (simp add: initial_details_def)
  have i: "k \<le> 3 \<longrightarrow> isActive (det l) = True"
    using run_ok_take_keeps [OF keeps_isActive _ ok] s by (simp add: initial_details_def)
  have n: "k \<le> 1 \<longrightarrow> name (det l) = None"
    using run_ok_take_keeps [OF keeps_name _ ok] s by (simp add: initial_details_def)
  have z: "k = 0 \<longrightarrow> placeId (det l) = None"
    using ok s by (auto simp: initial_details_def)
  show ?thesis using k ok r fail e w a p i n z by blast
qed

lemma fails_after_name:
  assumes ok: "run_ok (take 2 (try_block dec pg)) start = Some l2"
    and nm: "truthy (name (det l2))"
    and ex: "read_pageText pg l2 = Inl e"
  shows "extractPlaceDetails dec pg = det l2 \<and> qualifies (extractPlaceDetails dec pg)"
proof -
  from ok obtain l1 where s1: "set_placeId dec pg start = Inr l1" and s2: "set_name pg l1 = Inr l2"
    by (auto simp: try_block_def split: sum.splits)
  have "run_steps (try_block dec pg) start = (l2, Some e)"
    using s1 s2 ex by (simp add: try_block_def)
  then have r: "extractPlaceDetails dec pg = det l2" by (simp add: extractPlaceDetails_def)
  have w: "hasWebsite (det l2) = hasWebsite (det start)"
    using run_ok_take_keeps [OF keeps_hasWebsite _ ok] by simp
  have a: "isActive (det l2) = isActive (det start)"
    using run_ok_take_keeps [OF keeps_isActive _ ok] by simp
  have "qualifies (det l2)"
    using w a nm by (simp add: qualifies_def start_def initial_details_def)
  then show ?thesis using r by simp
qed

text \<open>
  C10. \<^verbatim>\<open>extractPlaceDetails\<close> always returns a details object: whatever the page does,
  some number \<open>k\<close> of the nine statements of the \<^verbatim>\<open>try\<close> block complete, statement
  \<open>k\<close> throws if \<open>k < 9\<close>, and the result is the details as the first \<open>k\<close> statements
  left them; the fields set by later statements still have their initial values (emails
  empty, no website, no address, no phone, active, no name, no place id). So when the
  block fails right after a name was read, the result has that name, no website and is
  active: it passes the gate of \<^verbatim>\<open>getPlaceDetails\<close>, whether or not the page has a
  website link.
\<close>

theorem extractPlaceDetails_partial:
  "(\<exists>k \<le> 9. \<exists>l.
      run_ok (take k (try_block dec pg)) start = Some l
    \<and> extractPlaceDetails dec pg = det l
    \<and> (k < 9 \<longrightarrow> (\<exists>e. (try_block dec pg ! k) l = Inl e))
    \<and> (k \<le> 8 \<longrightarrow> emails (det l) = [])
    \<and> (k \<le> 7 \<longrightarrow> hasWebsite (det l) = False)
    \<and> (k \<le> 6 \<longrightarrow> address (det l) = None)
    \<and> (k \<le> 4 \<longrightarrow> phone (det l) = None)
    \<and> (k \<le> 3 \<longrightarrow> isActive (det l) = True)
    \<and> (k \<le> 1 \<longrightarrow> name (det l) = None)
    \<and> (k = 0 \<longrightarrow> placeId (det l) = None))
   \<and> (\<forall>l2 e. run_ok (take 2 (try_block dec pg)) start = Some l2 \<and> truthy (name (det l2))
              \<and> read_pageText pg l2 = Inl e
         \<longrightarrow> extractPlaceDetails dec pg = det l2 \<and> qualifies (extractPlaceDetails dec pg))"
  using extract_prefix [of dec pg] fails_after_name [of dec pg] by blast

theorem extractPlaceDetails_partial_witness:
  "extractPlaceDetails Inr broken_page =
     \<lparr> name = Some ''Cafe A'', address = None, phone = None, emails = [], hasWebsite = False,
       placeId = Some ''Cafe+A'', isActive = True \<rparr>
   \<and> query_placeWebsite broken_page = element ''cafea.es''
   \<and> qualifies (extractPlaceDetails Inr broken_page)
   \<and> fst (getPlaceDetails Inr ((cafe_fetch ''Cafe A'')\<lparr>shown := broken_page\<rparr>) new_scraper) =
       Inr (Some \<lparr> name = Some ''Cafe A'', address = None, phone = None,
                    emails = [''cafea@gmail.com''], hasWebsite = False,
                    placeId = Some ''Cafe+A'', isActive = True \<rparr>)"
proof -
  let ?l2 = "\<lparr> det = initial_details\<lparr>placeId := Some ''Cafe+A'', name := Some ''Cafe A''\<rparr>, pageText = [] \<rparr>"
  have ok: "run_ok (take 2 (try_block Inr broken_page)) start = Some ?l2" by code_simp
  have nm: "truthy (name (det ?l2))" by (simp add: truthy_def)
  have ex: "read_pageText broken_page ?l2 = Inl (Error ''Execution context was destroyed'')"
    by (simp add: read_pageText_def broken_page_def)
  have t: "extractPlaceDetails Inr broken_page = det ?l2 \<and> qualifies (extractPlaceDetails Inr broken_page)"
    using extractPlaceDetails_partial [of Inr broken_page, THEN conjunct2] ok nm ex by blast
  have d: "extractPlaceDetails Inr broken_page =
     \<lparr> name = Some ''Cafe A'', address = None, phone = None, emails = [], hasWebsite = False,
       placeId = Some ''Cafe+A'', isActive = True \<rparr>"
    using t [THEN conjunct1] by (simp add: initial_details_def)
  have q: "qualifies (extractPlaceDetails Inr broken_page)" using t [THEN conjunct2] .
  have s: "query_placeWebsite broken_page = element ''cafea.es''" by (simp add: broken_page_def)
  have g: "fst (getPlaceDetails Inr ((cafe_fetch ''Cafe A'')\<lparr>shown := broken_page\<rparr>) new_scraper) =
       Inr (Some \<lparr> name = Some ''Cafe A'', address = None, phone = None,
                    emails = [''cafea@gmail.com''], hasWebsite = False,
                    placeId = Some ''Cafe+A'', isActive = True \<rparr>)" by code_simp
  show ?thesis using d s q g by (intro conjI)
qed

subsection \<open>The emission gate and exceptions\<close>

text \<open>
  C1. The claim: a listing whose name is not yet in the dedup set yields a record if and
  only if it has no website, is active and has a name. The listing below is such a
  listing, with no email on its page, so that the secondary lookup is called. When the
  lookup finds an address the record is returned with it, and when the lookup fails inside
  its own \<^verbatim>\<open>try\<close> the record is returned without email: the lookup is optional. When
  the lookup throws on opening its page, which it does before its \<^verbatim>\<open>try\<close>, the
  exception reaches the \<^verbatim>\<open>catch\<close> of \<^verbatim>\<open>getPlaceDetails\<close> and the record is dropped.
\<close>

theorem getPlaceDetails_lookup_failure:
  "extractPlaceDetails Inr (cafe_page ''Cafe A'') =
     \<lparr> name = Some ''Cafe A'', address = Some ''Calle Mayor 15, Madrid'', phone = None,
       emails = [], hasWebsite = False, placeId = Some ''Cafe+A'', isActive = True \<rparr>
   \<and> checkedNames new_scraper = {}
   \<and> fst (getPlaceDetails Inr (cafe_fetch ''Cafe A'') new_scraper) =
       Inr (Some \<lparr> name = Some ''Cafe A'', address = Some ''Calle Mayor 15, Madrid'',
                    phone = None, emails = [''cafea@gmail.com''], hasWebsite = False,
                    placeId = Some ''Cafe+A'', isActive = True \<rparr>)
   \<and> fst (getPlaceDetails Inr
            ((cafe_fetch ''Cafe A'')
               \<lparr>email_lookup := gmail_lookup\<lparr>lookup_content := Inl (Error ''Timeout 15000ms exceeded'')\<rparr>\<rparr>)
            new_scraper) =
       Inr (Some \<lparr> name = Some ''Cafe A'', address = Some ''Calle Mayor 15, Madrid'',
                    phone = None, emails = [], hasWebsite = False,
                    placeId = Some ''Cafe+A'', isActive = True \<rparr>)
   \<and> fst (getPlaceDetails Inr
            ((cafe_fetch ''Cafe A'')
               \<lparr>email_lookup := gmail_lookup\<lparr>lookup_newPage := Some (Error ''browser has been closed'')\<rparr>\<rparr>)
            new_scraper) = Inr None"
  by code_simp

text \<open>
  C8 (as the code has it). When opening and closing the page do not throw,
  \<^verbatim>\<open>getPlaceDetails\<close> returns: every exception raised inside its \<^verbatim>\<open>try\<close> block
  (navigation, gating, the secondary lookup; extraction catches its own) is turned into
  the result none.
\<close>

theorem getPlaceDetails_catches:
  "newPage f = None \<Longrightarrow> close f = None \<Longrightarrow>
     (\<exists>v. fst (getPlaceDetails dec f st) = Inr v)
     \<and> ((\<exists>e. fst (try_getPlaceDetails dec f st) = Inl e) \<longrightarrow> fst (getPlaceDetails dec f st) = Inr None)
     \<and> ((\<exists>e. goto f = Some e) \<longrightarrow> fst (getPlaceDetails dec f st) = Inr None)"
  by (auto simp: getPlaceDetails_def try_getPlaceDetails_def Let_def
           split: option.splits prod.splits sum.splits)

theorem getPlaceDetails_catches_witness:
  "fst (getPlaceDetails Inr ((cafe_fetch ''Cafe A'')\<lparr>goto := Some (Error ''Timeout 15000ms exceeded'')\<rparr>)
         new_scraper) = Inr None"
  using getPlaceDetails_catches
    [of "(cafe_fetch ''Cafe A'')\<lparr>goto := Some (Error ''Timeout 15000ms exceeded'')\<rparr>" Inr new_scraper]
  by (simp add: cafe_fetch_def)

text \<open>
  C8 as stated says that \<^verbatim>\<open>getPlaceDetails\<close> never propagates an exception. The page
  is opened before the \<^verbatim>\<open>try\<close> and closed in its \<^verbatim>\<open>finally\<close>: an exception of
  either call leaves the function.
\<close>

theorem getPlaceDetails_propagates_counterexample:
  "fst (getPlaceDetails Inr ((cafe_fetch ''Cafe A'')\<lparr>newPage := Some (Error ''browser has been closed'')\<rparr>)
         new_scraper) = Inl (Error ''browser has been closed'')
   \<and> fst (getPlaceDetails Inr ((cafe_fetch ''Cafe A'')\<lparr>close := Some (Error ''page crashed'')\<rparr>)
         new_scraper) = Inl (Error ''page crashed'')"
  by code_simp

subsection \<open>Deduplication by name within a sweep\<close>

lemma get_repeated:
  assumes "resolves dec f k" and "k \<in> checkedNames st"
  shows "getPlaceDetails dec f st = ((case close f of None \<Rightarrow> Inr None | Some e \<Rightarrow> Inl e), st)"
  using assms
  by (auto simp: resolves_def getPlaceDetails_def try_getPlaceDetails_def Let_def truthy_def
           split: option.splits)

lemma gate_checkedNames: "checkedNames (snd (gate f d st)) = checkedNames st"
  by (auto simp: gate_def Let_def split: sum.splits option.splits)

lemma try_checkedNames:
  "checkedNames (snd (try_getPlaceDetails dec f st)) =
     (if goto f = None \<and> truthy (name (extractPlaceDetails dec (shown f)))
      then insert (toLowerCase (case name (extractPlaceDetails dec (shown f)) of Some n \<Rightarrow> n | None \<Rightarrow> []))
             (checkedNames st)
      else checkedNames st)"
  by (simp add: try_getPlaceDetails_def Let_def gate_checkedNames insert_absorb split: option.splits)

lemma get_snd:
  "snd (getPlaceDetails dec f st) =
     (case newPage f of Some e \<Rightarrow> st | None \<Rightarrow> snd (try_getPlaceDetails dec f st))"
  by (simp add: getPlaceDetails_def Let_def split_beta split: option.splits)

lemma get_checkedNames:
  "checkedNames (snd (getPlaceDetails dec f st)) =
     (if newPage f = None \<and> goto f = None \<and> truthy (name (extractPlaceDetails dec (shown f)))
      then insert (toLowerCase (case name (extractPlaceDetails dec (shown f)) of Some n \<Rightarrow> n | None \<Rightarrow> []))
             (checkedNames st)
      else checkedNames st)"
  by (simp add: get_snd try_checkedNames split: option.splits)

lemma get_mono: "k \<in> checkedNames st \<Longrightarrow> k \<in> checkedNames (snd (getPlaceDetails dec f st))"
  by (simp add: get_checkedNames)

lemma get_resolves: "resolves dec f k \<Longrightarrow> k \<in> checkedNames (snd (getPlaceDetails dec f st))"
  by (auto simp: get_checkedNames resolves_def truthy_def split: option.splits)

lemma get_inserts:
  "k \<notin> checkedNames st \<Longrightarrow> k \<in> checkedNames (snd (getPlaceDetails dec f st)) \<Longrightarrow> resolves dec f k"
  by (auto simp: get_checkedNames resolves_def truthy_def split: option.splits if_splits)

lemma gate_name: "fst (gate f d st) = Inr (Some r) \<Longrightarrow> name r = name d \<and> qualifies d"
  by (auto simp: gate_def Let_def split: sum.splits option.splits if_splits)

lemma get_emitted:
  assumes "emitted_as k (getPlaceDetails dec f st)"
  shows "resolves dec f k \<and> k \<notin> checkedNames st"
proof -
  from assms obtain r where r: "fst (getPlaceDetails dec f st) = Inr (Some r)"
    and k: "map_option toLowerCase (name r) = Some k"
    by (auto simp: emitted_as_def split: sum.splits option.splits)
  from r have n: "newPage f = None" and t: "fst (try_getPlaceDetails dec f st) = Inr (Some r)"
    by (auto simp: getPlaceDetails_def Let_def split: option.splits prod.splits sum.splits)
  let ?d = "extractPlaceDetails dec (shown f)"
  from t have g: "goto f = None"
    by (auto simp: try_getPlaceDetails_def split: option.splits)
  from t g obtain st' where gt: "fst (gate f ?d st') = Inr (Some r)"
    and fr: "truthy (name ?d) \<longrightarrow> toLowerCase (case name ?d of Some n \<Rightarrow> n | None \<Rightarrow> []) \<notin> checkedNames st"
    by (auto simp: try_getPlaceDetails_def Let_def split: if_splits)
  from gt have nm: "name r = name ?d" and q: "qualifies ?d" using gate_name by blast+
  from q have tr: "truthy (name ?d)" by (simp add: qualifies_def)
  then obtain n where nn: "name ?d = Some n" "n \<noteq> []" by (auto simp: truthy_def split: option.splits)
  with k nm have "toLowerCase n = k" by simp
  then show ?thesis using n g nn fr tr by (simp add: resolves_def)
qed

lemma admitted_zero: "k \<in> checkedNames st \<Longrightarrow> admitted dec fs st k = 0"
  by (induction fs arbitrary: st) (auto simp: get_mono)

lemma admitted_one:
  "k \<notin> checkedNames st \<Longrightarrow> \<exists>f \<in> set fs. resolves dec f k \<Longrightarrow> admitted dec fs st k = 1"
proof (induction fs arbitrary: st)
  case Nil
  then show ?case by simp
next
  case (Cons f fs)
  show ?case
  proof (cases "resolves dec f k")
    case True
    then have "admitted dec fs (snd (getPlaceDetails dec f st)) k = 0"
      using admitted_zero get_resolves by blast
    then show ?thesis using True Cons.prems(1) by simp
  next
    case False
    then have "k \<notin> checkedNames (snd (getPlaceDetails dec f st))"
      using get_inserts Cons.prems(1) by blast
    moreover have "\<exists>f \<in> set fs. resolves dec f k" using Cons.prems(2) False by auto
    ultimately have "admitted dec fs (snd (getPlaceDetails dec f st)) k = 1" by (rule Cons.IH)
    then show ?thesis using False by simp
  qed
qed

lemma emitted_le_admitted:
  "length (filter (emitted_as k) (sweep dec fs st)) \<le> admitted dec fs st k"
proof (induction fs arbitrary: st)
  case Nil
  then show ?case by simp
next
  case (Cons f fs)
  have "(if emitted_as k (getPlaceDetails dec f st) then 1 else 0)
        \<le> (if resolves dec f k \<and> k \<notin> checkedNames st then 1 else (0::nat))"
    using get_emitted by auto
  then show ?case using Cons.IH [of "snd (getPlaceDetails dec f st)"] by (auto simp: Let_def)
qed

lemma sweep_length: "length (sweep dec fs st) = length fs"
  by (induction fs arbitrary: st) (auto simp: Let_def)

lemma sweep_nth:
  "j < length fs \<Longrightarrow>
   sweep dec fs st ! j =
     getPlaceDetails dec (fs ! j) (if j = 0 then st else snd (sweep dec fs st ! (j - 1)))"
proof (induction fs arbitrary: st j)
  case Nil
  then show ?case by simp
next
  case (Cons f fs)
  show ?case
  proof (cases j)
    case 0
    then show ?thesis by (simp add: Let_def)
  next
    case (Suc j')
    then have "j' < length fs" using Cons.prems by simp
    from Cons.IH [OF this, of "snd (getPlaceDetails dec f st)"] Suc show ?thesis
      by (cases j') (auto simp: Let_def)
  qed
qed

lemma sweep_checked:
  "i < length fs \<Longrightarrow> resolves dec (fs ! i) k \<Longrightarrow> i \<le> m \<Longrightarrow> m < length fs \<Longrightarrow>
   k \<in> checkedNames (snd (sweep dec fs st ! m))"
proof (induction m)
  case 0
  then have "i = 0" by simp
  then show ?case using 0 sweep_nth [of 0 fs dec st] get_resolves by simp
next
  case (Suc m)
  have nth: "sweep dec fs st ! Suc m = getPlaceDetails dec (fs ! Suc m) (snd (sweep dec fs st ! m))"
    using sweep_nth [OF Suc.prems(4), of dec st] by simp
  show ?case
  proof (cases "i = Suc m")
    case True
    then show ?thesis using nth Suc.prems(2) get_resolves by simp
  next
    case False
    then have "k \<in> checkedNames (snd (sweep dec fs st ! m))"
      using Suc by simp
    then show ?thesis using nth get_mono by simp
  qed
qed

text \<open>
  C5 (as the code has it). Take two references of one sweep, the call for the second
  coming after the call for the first, that resolve to the same name up to letter case.
  The later call returns no
  record (none; the exception of closing the page, if that throws) and leaves the scraper
  as it found it: nothing is added to the dedup set and no secondary lookup is made, also
  when the listing qualifies, since the dedup check comes first. Over the whole sweep
  exactly one call with that name passes the dedup check and is put to the gate (none if
  the name was in the set before the sweep began), and at most that one returns a record.
\<close>

theorem sweep_dedup:
  assumes "i < j" and "j < length fs" and "resolves dec (fs ! i) k" and "resolves dec (fs ! j) k"
  shows "fst (sweep dec fs st ! j) = (case close (fs ! j) of None \<Rightarrow> Inr None | Some e \<Rightarrow> Inl e)
       \<and> snd (sweep dec fs st ! j) = snd (sweep dec fs st ! (j - 1))
       \<and> length (filter (emitted_as k) (sweep dec fs st)) \<le> admitted dec fs st k
       \<and> admitted dec fs st k = (if k \<in> checkedNames st then 0 else 1)"
proof -
  have i: "i < length fs" and j0: "j \<noteq> 0" and ij: "i \<le> j - 1" and j1: "j - 1 < length fs"
    using assms(1,2) by simp_all
  have before: "k \<in> checkedNames (snd (sweep dec fs st ! (j - 1)))"
    using sweep_checked [OF i assms(3) ij j1] .
  have nth: "sweep dec fs st ! j = getPlaceDetails dec (fs ! j) (snd (sweep dec fs st ! (j - 1)))"
    using sweep_nth [OF assms(2), of dec st] j0 by simp
  have rep: "sweep dec fs st ! j =
       ((case close (fs ! j) of None \<Rightarrow> Inr None | Some e \<Rightarrow> Inl e), snd (sweep dec fs st ! (j - 1)))"
    unfolding nth using get_repeated [OF assms(4) before] .
  have ex: "\<exists>f \<in> set fs. resolves dec f k" using assms(2,4) nth_mem by blast
  have adm: "admitted dec fs st k = (if k \<in> checkedNames st then 0 else 1)"
    using admitted_zero admitted_one [OF _ ex] by simp
  have le: "length (filter (emitted_as k) (sweep dec fs st)) \<le> admitted dec fs st k"
    by (rule emitted_le_admitted)
  have r1: "fst (sweep dec fs st ! j) = (case close (fs ! j) of None \<Rightarrow> Inr None | Some e \<Rightarrow> Inl e)"
    and r2: "snd (sweep dec fs st ! j) = snd (sweep dec fs st ! (j - 1))"
    using rep by simp_all
  show ?thesis using r1 r2 le adm by blast
qed

theorem sweep_dedup_witness:
  "fst (sweep Inr [cafe_fetch (''Caf'' @ [CHR 0xE9]), cafe_fetch (''CAF'' @ [CHR 0xC9])] new_scraper ! 1) = Inr None
   \<and> lookedUp (snd (sweep Inr [cafe_fetch (''Caf'' @ [CHR 0xE9]), cafe_fetch (''CAF'' @ [CHR 0xC9])] new_scraper ! 1)) = [''Caf'' @ [CHR 0xE9]]
   \<and> admitted Inr [cafe_fetch (''Caf'' @ [CHR 0xE9]), cafe_fetch (''CAF'' @ [CHR 0xC9])] new_scraper (''caf'' @ [CHR 0xE9]) = 1
   \<and> length (filter (emitted_as (''caf'' @ [CHR 0xE9]))
               (sweep Inr [cafe_fetch (''Caf'' @ [CHR 0xE9]), cafe_fetch (''CAF'' @ [CHR 0xC9])] new_scraper)) = 1"
proof -
  let ?fs = "[cafe_fetch (''Caf'' @ [CHR 0xE9]), cafe_fetch (''CAF'' @ [CHR 0xC9])]"
  let ?out = "sweep Inr ?fs new_scraper"
  have r0: "resolves Inr (?fs ! 0) (''caf'' @ [CHR 0xE9])" by code_simp
  have r1: "resolves Inr (?fs ! 1) (''caf'' @ [CHR 0xE9])" by code_simp
  have first: "lookedUp (snd (?out ! 0)) = [''Caf'' @ [CHR 0xE9]]" by code_simp
  have e: "emitted_as (''caf'' @ [CHR 0xE9]) (?out ! 0)" by code_simp
  have cl: "close (?fs ! 1) = None" by (simp add: cafe_fetch_def)
  have nin: "(''caf'' @ [CHR 0xE9]) \<notin> checkedNames new_scraper" by (simp add: new_scraper_def)
  have l: "(0::nat) < 1" "1 < length ?fs" by simp_all
  have z: "(1::nat) - 1 = 0" by simp
  note t = sweep_dedup [of 0 1 ?fs Inr "''caf'' @ [CHR 0xE9]" new_scraper, OF l r0 r1]
  have a: "fst (?out ! 1) = Inr None"
    using t [THEN conjunct1] cl by (simp only: option.case)
  have b: "snd (?out ! 1) = snd (?out ! 0)"
    using t [THEN conjunct2, THEN conjunct1] by (simp only: z)
  have c: "length (filter (emitted_as (''caf'' @ [CHR 0xE9])) ?out) \<le> admitted Inr ?fs new_scraper (''caf'' @ [CHR 0xE9])"
    using t [THEN conjunct2, THEN conjunct2, THEN conjunct1] .
  have d: "admitted Inr ?fs new_scraper (''caf'' @ [CHR 0xE9]) = 1"
    using t [THEN conjunct2, THEN conjunct2, THEN conjunct2] nin by (simp only: if_False)
  have len: "length ?out = 2" by (simp only: sweep_length) simp
  have "?out ! 0 \<in> set ?out" using len by (simp only: nth_mem zero_less_numeral)
  then have "?out ! 0 \<in> set (filter (emitted_as (''caf'' @ [CHR 0xE9])) ?out)"
    using e by (simp only: set_filter mem_Collect_eq simp_thms)
  then have "0 < length (filter (emitted_as (''caf'' @ [CHR 0xE9])) ?out)"
    by (rule length_pos_if_in_set)
  then have n: "length (filter (emitted_as (''caf'' @ [CHR 0xE9])) ?out) = 1"
    using c d by linarith
  have lk: "lookedUp (snd (?out ! 1)) = [''Caf'' @ [CHR 0xE9]]"
    using first by (simp only: b)
  show ?thesis using a lk d n by (intro conjI)
qed

text \<open>
  C5 as stated says that the repeated reference returns none and that exactly one record
  is emitted. In the first sweep below both references resolve to the same name and
  closing the page of the second throws: the second call does not return none, the
  exception leaves \<^verbatim>\<open>getPlaceDetails\<close>. In the second sweep both listings have a
  website: no record is emitted for the name.
\<close>

theorem sweep_repeated_counterexample:
  "resolves Inr (cafe_fetch ''Cafe A'') ''cafe a''
   \<and> resolves Inr ((cafe_fetch ''CAFE A'')\<lparr>close := Some (Error ''page crashed'')\<rparr>) ''cafe a''
   \<and> map fst (sweep Inr [cafe_fetch ''Cafe A'',
                          (cafe_fetch ''CAFE A'')\<lparr>close := Some (Error ''page crashed'')\<rparr>]
                new_scraper)
       = [Inr (Some \<lparr> name = Some ''Cafe A'', address = Some ''Calle Mayor 15, Madrid'',
                       phone = None, emails = [''cafea@gmail.com''], hasWebsite = False,
                       placeId = Some ''Cafe+A'', isActive = True \<rparr>),
          Inl (Error ''page crashed'')]
   \<and> map fst (sweep Inr [(cafe_fetch ''Cafe A'')\<lparr>shown := with_website (cafe_page ''Cafe A'')\<rparr>,
                          (cafe_fetch ''CAFE A'')\<lparr>shown := with_website (cafe_page ''CAFE A'')\<rparr>]
                new_scraper)
       = [Inr None, Inr None]"
  by code_simp

subsection \<open>The worker pool\<close>



















end

